theory Spec2Isabelle
  imports Main
begin

section \<open>JavaScript values and promises\<close>

text \<open>
  The wrapper of \<^verbatim>\<open>src/index.js\<close> passes JavaScript values between the
  application and the native binding and only ever inspects one of them: the
  \<^verbatim>\<open>error\<close> argument of a completion callback, tested with
  \<^verbatim>\<open>if (error)\<close>. The values are therefore modelled by their kind, with the
  truthiness JavaScript gives each kind. \<open>JErr code msg\<close> is an error object of
  the binding, \<open>JMsg m\<close> a message of the consumer with the properties the
  source documents for it (\<^verbatim>\<open>err\<close>, \<^verbatim>\<open>errStr\<close>, \<^verbatim>\<open>topicName\<close>,
  \<^verbatim>\<open>partition\<close>, \<^verbatim>\<open>payload\<close>, \<^verbatim>\<open>key\<close>, \<^verbatim>\<open>timestamp\<close>), and
  \<open>JObj a\<close> any other object (a topic partition, a message whose properties do not
  matter).
\<close>

record message =
  msg_err :: int
  msg_errStr :: string
  msg_topicName :: string
  msg_partition :: int
  msg_payload :: string
  msg_key :: "string option"
  msg_timestamp :: "int option"

datatype jsval =
    JUndefined
  | JNull
  | JBool bool
  | JNum int
  | JNaN
  | JStr string
  | JArr "jsval list"
  | JErr int string
  | JMsg message
  | JObj nat

fun truthy :: "jsval \<Rightarrow> bool" where
  "truthy JUndefined = False"
| "truthy JNull = False"
| "truthy (JBool b) = b"
| "truthy (JNum n) = (n \<noteq> 0)"
| "truthy JNaN = False"
| "truthy (JStr s) = (s \<noteq> [])"
| "truthy (JArr xs) = True"
| "truthy (JErr c m) = True"
| "truthy (JMsg m) = True"
| "truthy (JObj a) = True"

text \<open>
  A promise of the library \<^verbatim>\<open>P\<close> (bluebird, Promises/A+) is pending until it is
  settled, and it is settled at most once: \<^verbatim>\<open>resolve\<close> and \<^verbatim>\<open>reject\<close>
  on a promise that is no longer pending do nothing. The promises live in a heap
  indexed by their allocation number. The values the binding completes an operation
  with are messages and offsets, never thenables, so \<^verbatim>\<open>resolve\<close> fulfils with
  the value it is given.
\<close>

datatype promise_state = Pending | Fulfilled jsval | Rejected jsval

type_synonym heap = "promise_state list"

definition settle :: "nat \<Rightarrow> promise_state \<Rightarrow> heap \<Rightarrow> heap" where
  "settle p s h = (if p < length h \<and> h ! p = Pending then h[p := s] else h)"

definition resolve :: "nat \<Rightarrow> jsval \<Rightarrow> heap \<Rightarrow> heap" where
  "resolve p v h = settle p (Fulfilled v) h"

definition reject :: "nat \<Rightarrow> jsval \<Rightarrow> heap \<Rightarrow> heap" where
  "reject p e h = settle p (Rejected e) h"

text \<open>What a method of the wrapper returns: a plain value or a promise.\<close>

datatype ret = Plain jsval | PromiseRef nat

section \<open>The completion callbacks\<close>

text \<open>
  The two arrow functions the wrapper hands to the binding, each closed over the
  \<^verbatim>\<open>resolve\<close> and \<^verbatim>\<open>reject\<close> of one promise:
  \<^verbatim>\<open>(error, value) => { if (error) { return reject(error); } return resolve(value); }\<close>
  in \<^verbatim>\<open>consume\<close>, and the same with \<^verbatim>\<open>offset\<close> in \<^verbatim>\<open>produce\<close>.
  A closure is represented by its kind and the promise it settles.
\<close>

datatype callback = ConsumeCb nat | ProduceCb nat

fun invoke :: "callback \<Rightarrow> jsval \<Rightarrow> jsval \<Rightarrow> heap \<Rightarrow> heap" where
  "invoke (ConsumeCb p) error value h =
     (if truthy error then reject p error h else resolve p value h)"
| "invoke (ProduceCb p) error offset h =
     (if truthy error then reject p error h else resolve p offset h)"

section \<open>The native binding\<close>

text \<open>
  The binding (\<^verbatim>\<open>./build/Release/bindings\<close>) is not part of the wrapper. Its
  behaviour is a parameter: for each call the wrapper makes, a \<open>reply\<close> says which
  callbacks the binding runs before the call returns (by their position among the
  callbacks it has been handed, with the arguments it gives them), and whether the call
  then returns a value (\<open>Inr\<close>) or throws (\<open>Inl\<close>). A callback the binding
  runs later, from the event loop, is a \<open>deliver\<close> step of its own.

  The client records what the wrapper has handed to the binding: the calls with their
  arguments, and the callbacks, in the order they were handed over. The binding can only
  run a callback it holds: a position beyond the callbacks held names none, and such a
  step changes nothing. The callback of the call in progress is held from the start of
  the call, so a reply can run it.
\<close>

datatype native_call =
    NSubscribe jsval
  | NConsume
  | NCommit jsval
  | NClose
  | NProduce jsval jsval

fun call_args :: "native_call \<Rightarrow> jsval list" where
  "call_args (NSubscribe topics) = [topics]"
| "call_args NConsume = []"
| "call_args (NCommit commitValues) = [commitValues]"
| "call_args NClose = []"
| "call_args (NProduce topic payload) = [topic, payload]"

record reply =
  callbacks_run :: "(nat \<times> jsval \<times> jsval) list"
  outcome :: "jsval + jsval"

record client =
  promises :: heap
  held :: "callback list"
  calls :: "native_call list"

definition new_client :: client where
  "new_client = \<lparr>promises = [], held = [], calls = []\<rparr>"

definition deliver :: "nat \<times> jsval \<times> jsval \<Rightarrow> client \<Rightarrow> client" where
  "deliver c w =
     (case c of (i, error, value) \<Rightarrow>
        if i < length (held w)
        then w\<lparr>promises := invoke (held w ! i) error value (promises w)\<rparr>
        else w)"

definition native :: "native_call \<Rightarrow> callback list \<Rightarrow> reply \<Rightarrow> client \<Rightarrow> (jsval + jsval) \<times> client" where
  "native c cbs rep w =
     (outcome rep,
      fold deliver (callbacks_run rep) (w\<lparr>held := held w @ cbs, calls := calls w @ [c]\<rparr>))"

text \<open>A binding that takes the call, runs no callback and returns \<^verbatim>\<open>undefined\<close>.\<close>

definition accepts :: reply where
  "accepts = \<lparr>callbacks_run = [], outcome = Inr JUndefined\<rparr>"

section \<open>The wrapper\<close>

text \<open>
  \<^verbatim>\<open>new P(executor)\<close> allocates a pending promise and runs the executor at once
  with the promise's \<^verbatim>\<open>resolve\<close> and \<^verbatim>\<open>reject\<close>. The library (bluebird 3)
  catches what the executor throws and rejects the promise with it when it is not
  \<^verbatim>\<open>undefined\<close> (\<^verbatim>\<open>if (r !== undefined) promise._rejectCallback(r, true)\<close>):
  after \<^verbatim>\<open>throw undefined\<close> the promise is left as it is. The expression itself
  never throws.
\<close>

definition new_P :: "(nat \<Rightarrow> client \<Rightarrow> (jsval + jsval) \<times> client) \<Rightarrow> client \<Rightarrow> (jsval + ret) \<times> client" where
  "new_P executor w =
     (let p = length (promises w) in
      case executor p (w\<lparr>promises := promises w @ [Pending]\<rparr>) of
        (Inl e, w') \<Rightarrow>
          (Inr (PromiseRef p),
           if e = JUndefined then w' else w'\<lparr>promises := reject p e (promises w')\<rparr>)
      | (Inr _, w') \<Rightarrow> (Inr (PromiseRef p), w'))"

text \<open>\<^verbatim>\<open>subscribe(topics) { return this.impl.subscribe(topics); }\<close>\<close>

definition KafkaConsumer_subscribe :: "jsval \<Rightarrow> reply \<Rightarrow> client \<Rightarrow> (jsval + ret) \<times> client" where
  "KafkaConsumer_subscribe topics rep w =
     (case native (NSubscribe topics) [] rep w of
        (Inl e, w') \<Rightarrow> (Inl e, w')
      | (Inr v, w') \<Rightarrow> (Inr (Plain v), w'))"

text \<open>\<^verbatim>\<open>consume() { return new P((resolve, reject) => { this.impl.consume(cb); }); }\<close>\<close>

definition KafkaConsumer_consume :: "reply \<Rightarrow> client \<Rightarrow> (jsval + ret) \<times> client" where
  "KafkaConsumer_consume rep w = new_P (\<lambda>p. native NConsume [ConsumeCb p] rep) w"

text \<open>\<^verbatim>\<open>commit(commitValues) { this.impl.commit(commitValues); }\<close>\<close>

definition KafkaConsumer_commit :: "jsval \<Rightarrow> reply \<Rightarrow> client \<Rightarrow> (jsval + ret) \<times> client" where
  "KafkaConsumer_commit commitValues rep w =
     (case native (NCommit commitValues) [] rep w of
        (Inl e, w') \<Rightarrow> (Inl e, w')
      | (Inr v, w') \<Rightarrow> (Inr (Plain JUndefined), w'))"

text \<open>\<^verbatim>\<open>close() { this.impl.close(); }\<close> of the consumer.\<close>

definition KafkaConsumer_close :: "reply \<Rightarrow> client \<Rightarrow> (jsval + ret) \<times> client" where
  "KafkaConsumer_close rep w =
     (case native NClose [] rep w of
        (Inl e, w') \<Rightarrow> (Inl e, w')
      | (Inr v, w') \<Rightarrow> (Inr (Plain JUndefined), w'))"

text \<open>
  \<^verbatim>\<open>produce(topic, payload) { return new P((resolve, reject) => {
  this.impl.produce(topic, payload, cb); }); }\<close>
\<close>

definition Producer_produce :: "jsval \<Rightarrow> jsval \<Rightarrow> reply \<Rightarrow> client \<Rightarrow> (jsval + ret) \<times> client" where
  "Producer_produce topic payload rep w =
     new_P (\<lambda>p. native (NProduce topic payload) [ProduceCb p] rep) w"

text \<open>
  A JavaScript call binds the formal parameters to the actual arguments by position:
  a missing argument is \<^verbatim>\<open>undefined\<close>, an argument beyond the formal parameters
  is bound to nothing.
\<close>

definition arg :: "nat \<Rightarrow> jsval list \<Rightarrow> jsval" where
  "arg i args = (if i < length args then args ! i else JUndefined)"

definition Producer_produce_call :: "jsval list \<Rightarrow> reply \<Rightarrow> client \<Rightarrow> (jsval + ret) \<times> client" where
  "Producer_produce_call args rep w = Producer_produce (arg 0 args) (arg 1 args) rep w"

text \<open>\<^verbatim>\<open>close() { return this.impl.close(); }\<close> of the producer.\<close>

definition Producer_close :: "reply \<Rightarrow> client \<Rightarrow> (jsval + ret) \<times> client" where
  "Producer_close rep w =
     (case native NClose [] rep w of
        (Inl e, w') \<Rightarrow> (Inl e, w')
      | (Inr v, w') \<Rightarrow> (Inr (Plain v), w'))"

section \<open>Runs of a client\<close>

text \<open>
  What can happen to a client: the application calls a method (and the binding replies),
  or the event loop has the binding run a callback it holds.
\<close>

datatype event =
    Subscribe jsval reply
  | Consume reply
  | Commit jsval reply
  | Close reply
  | Produce "jsval list" reply
  | ProducerClose reply
  | Completion nat jsval jsval

fun step :: "event \<Rightarrow> client \<Rightarrow> client" where
  "step (Subscribe topics rep) w = snd (KafkaConsumer_subscribe topics rep w)"
| "step (Consume rep) w = snd (KafkaConsumer_consume rep w)"
| "step (Commit commitValues rep) w = snd (KafkaConsumer_commit commitValues rep w)"
| "step (Close rep) w = snd (KafkaConsumer_close rep w)"
| "step (Produce args rep) w = snd (Producer_produce_call args rep w)"
| "step (ProducerClose rep) w = snd (Producer_close rep w)"
| "step (Completion i error value) w = deliver (i, error, value) w"

definition run :: "event list \<Rightarrow> client \<Rightarrow> client" where
  "run evs w = fold step evs w"

section \<open>Callbacks and the promises they settle\<close>

text \<open>
  Each callback the wrapper creates settles the promise created in the same call.
  A client is well formed when every callback the binding holds settles an allocated
  promise and no two callbacks settle the same one: every client the wrapper builds is.
  \<open>runs i rep\<close> says that a reply of the binding runs the callback at position
  \<open>i\<close>, \<open>touches i ev\<close> that an event has the binding run it.
\<close>

fun target :: "callback \<Rightarrow> nat" where
  "target (ConsumeCb p) = p"
| "target (ProduceCb p) = p"

definition well_formed :: "client \<Rightarrow> bool" where
  "well_formed w =
     (list_all (\<lambda>cb. target cb < length (promises w)) (held w) \<and> distinct (map target (held w)))"

definition runs :: "nat \<Rightarrow> reply \<Rightarrow> bool" where
  "runs i rep = (i \<in> set (map fst (callbacks_run rep)))"

fun touches :: "nat \<Rightarrow> event \<Rightarrow> bool" where
  "touches i (Subscribe topics rep) = runs i rep"
| "touches i (Consume rep) = runs i rep"
| "touches i (Commit commitValues rep) = runs i rep"
| "touches i (Close rep) = runs i rep"
| "touches i (Produce args rep) = runs i rep"
| "touches i (ProducerClose rep) = runs i rep"
| "touches i (Completion j error value) = (j = i)"

section \<open>The error table\<close>

text \<open>
  Modelled from the spec: the module \<^verbatim>\<open>./lib/ErrorCode\<close>, which
  \<^verbatim>\<open>src/index.js\<close> requires and exports again as \<^verbatim>\<open>ErrorCode\<close>, is not
  among the sources. The spec describes it as a constant table of entries
  \<open>{code, name, message}\<close> with unique codes, code zero meaning success, and a
  \<open>lookup(code) -> {name, message}\<close> that returns a defined fallback for a code
  the table does not have. The table and the fallback are parameters.
\<close>

record entry =
  entry_code :: int
  entry_name :: string
  entry_message :: string

text \<open>
  Modelled from the spec: \<open>lookup\<close> of the absent module
  \<^verbatim>\<open>./lib/ErrorCode\<close>. It searches the table for the entry with the code and
  returns its name and message, or the fallback when the table has no such entry.
\<close>

definition lookup :: "entry list \<Rightarrow> string \<times> string \<Rightarrow> int \<Rightarrow> string \<times> string" where
  "lookup table fallback c =
     (case find (\<lambda>e. entry_code e = c) table of
        Some e \<Rightarrow> (entry_name e, entry_message e)
      | None \<Rightarrow> fallback)"

section \<open>Basic facts\<close>

lemma length_settle: "length (settle p s h) = length h"
  by (simp add: settle_def)

lemma length_invoke: "length (invoke cb error value h) = length h"
  by (cases cb) (simp_all add: resolve_def reject_def length_settle)

lemma deliver_fields:
  "held (deliver c w) = held w"
  "calls (deliver c w) = calls w"
  "length (promises (deliver c w)) = length (promises w)"
  by (cases c; simp add: deliver_def length_invoke)+

lemma fold_deliver_fields:
  "held (fold deliver cs w) = held w"
  "calls (fold deliver cs w) = calls w"
  "length (promises (fold deliver cs w)) = length (promises w)"
  by (induction cs arbitrary: w; simp add: deliver_fields)+

lemma native_fields:
  "fst (native c cbs rep w) = outcome rep"
  "held (snd (native c cbs rep w)) = held w @ cbs"
  "calls (snd (native c cbs rep w)) = calls w @ [c]"
  "length (promises (snd (native c cbs rep w))) = length (promises w)"
  by (simp_all add: native_def fold_deliver_fields)

lemma new_P_native:
  "new_P (\<lambda>p. native c [cb p] rep) w =
     (Inr (PromiseRef (length (promises w))),
      case outcome rep of
        Inl e \<Rightarrow>
          if e = JUndefined
          then snd (native c [cb (length (promises w))] rep (w\<lparr>promises := promises w @ [Pending]\<rparr>))
          else (snd (native c [cb (length (promises w))] rep (w\<lparr>promises := promises w @ [Pending]\<rparr>)))
            \<lparr>promises := reject (length (promises w)) e
               (promises (snd (native c [cb (length (promises w))] rep
                  (w\<lparr>promises := promises w @ [Pending]\<rparr>))))\<rparr>
      | Inr v \<Rightarrow> snd (native c [cb (length (promises w))] rep (w\<lparr>promises := promises w @ [Pending]\<rparr>)))"
  by (simp add: new_P_def native_def Let_def split: sum.splits)

lemma new_P_native_quiet:
  assumes "callbacks_run rep = []"
  shows "snd (new_P (\<lambda>p. native c [cb p] rep) w) =
     \<lparr>promises = promises w @
        [case outcome rep of
           Inl e \<Rightarrow> if e = JUndefined then Pending else Rejected e
         | Inr v \<Rightarrow> Pending],
      held = held w @ [cb (length (promises w))],
      calls = calls w @ [c]\<rparr>"
  using assms
  by (simp add: new_P_native native_def reject_def settle_def split: sum.splits)

lemma method_results:
  "fst (KafkaConsumer_subscribe topics rep w) =
     (case outcome rep of Inl e \<Rightarrow> Inl e | Inr v \<Rightarrow> Inr (Plain v))"
  "fst (KafkaConsumer_commit commitValues rep w) =
     (case outcome rep of Inl e \<Rightarrow> Inl e | Inr v \<Rightarrow> Inr (Plain JUndefined))"
  "fst (KafkaConsumer_close rep w) =
     (case outcome rep of Inl e \<Rightarrow> Inl e | Inr v \<Rightarrow> Inr (Plain JUndefined))"
  "fst (Producer_close rep w) =
     (case outcome rep of Inl e \<Rightarrow> Inl e | Inr v \<Rightarrow> Inr (Plain v))"
  by (simp_all add: KafkaConsumer_subscribe_def KafkaConsumer_commit_def
      KafkaConsumer_close_def Producer_close_def native_def split: sum.splits)

lemma method_clients:
  "snd (KafkaConsumer_subscribe topics rep w) = snd (native (NSubscribe topics) [] rep w)"
  "snd (KafkaConsumer_commit commitValues rep w) = snd (native (NCommit commitValues) [] rep w)"
  "snd (KafkaConsumer_close rep w) = snd (native NClose [] rep w)"
  "snd (Producer_close rep w) = snd (native NClose [] rep w)"
  by (simp_all add: KafkaConsumer_subscribe_def KafkaConsumer_commit_def
      KafkaConsumer_close_def Producer_close_def native_def split: sum.splits)

lemma settle_other: "q \<noteq> p \<Longrightarrow> settle q s h ! p = h ! p"
  by (simp add: settle_def)

lemma settle_settled: "h ! p \<noteq> Pending \<Longrightarrow> settle q s h ! p = h ! p"
  by (cases "q = p") (simp_all add: settle_def)

lemma settle_pending: "p < length h \<Longrightarrow> h ! p = Pending \<Longrightarrow> settle p s h = h[p := s]"
  by (simp add: settle_def)

lemma invoke_other: "target cb \<noteq> p \<Longrightarrow> invoke cb error value h ! p = h ! p"
  by (cases cb) (simp_all add: resolve_def reject_def settle_other)

lemma invoke_settled: "h ! p \<noteq> Pending \<Longrightarrow> invoke cb error value h ! p = h ! p"
  by (cases cb) (simp_all add: resolve_def reject_def settle_settled)

lemma invoke_pending:
  "target cb < length h \<Longrightarrow> h ! target cb = Pending \<Longrightarrow>
   invoke cb error value h = h[target cb := if truthy error then Rejected error else Fulfilled value]"
  by (cases cb) (simp_all add: resolve_def reject_def settle_pending)

lemma deliver_settled:
  "promises w ! p \<noteq> Pending \<Longrightarrow> promises (deliver c w) ! p = promises w ! p"
  by (cases c) (simp add: deliver_def invoke_settled)

lemma fold_deliver_settled:
  "promises w ! p \<noteq> Pending \<Longrightarrow> promises (fold deliver cs w) ! p = promises w ! p"
  by (induction cs arbitrary: w) (simp_all add: deliver_settled)

lemma deliver_other:
  assumes "distinct (map target (held w))" and "i < length (held w)" and "fst c \<noteq> i"
  shows "promises (deliver c w) ! target (held w ! i) = promises w ! target (held w ! i)"
proof (cases c)
  case (fields j error val)
  show ?thesis
  proof (cases "j < length (held w)")
    case True
    from assms fields have "j \<noteq> i" by simp
    with assms(1,2) True have "map target (held w) ! j \<noteq> map target (held w) ! i"
      by (simp add: nth_eq_iff_index_eq del: nth_map)
    with True assms(2) have "target (held w ! j) \<noteq> target (held w ! i)" by simp
    with True fields show ?thesis by (simp add: deliver_def invoke_other)
  next
    case False
    with fields show ?thesis by (simp add: deliver_def)
  qed
qed

lemma fold_deliver_other:
  assumes "distinct (map target (held w))" and "i < length (held w)"
    and "i \<notin> set (map fst cs)"
  shows "promises (fold deliver cs w) ! target (held w ! i) = promises w ! target (held w ! i)"
  using assms
proof (induction cs arbitrary: w)
  case Nil
  then show ?case by simp
next
  case (Cons c cs)
  have "promises (fold deliver cs (deliver c w)) ! target (held (deliver c w) ! i)
      = promises (deliver c w) ! target (held (deliver c w) ! i)"
    using Cons.prems by (intro Cons.IH) (simp_all add: deliver_fields)
  with Cons.prems show ?case by (simp add: deliver_fields deliver_other)
qed

lemma native_other:
  assumes "distinct (map target (held w @ cbs))" and "i < length (held w)" and "\<not> runs i rep"
  shows "promises (snd (native c cbs rep w)) ! target (held w ! i) = promises w ! target (held w ! i)"
proof -
  let ?w = "w\<lparr>held := held w @ cbs, calls := calls w @ [c]\<rparr>"
  have "promises (fold deliver (callbacks_run rep) ?w) ! target (held ?w ! i)
      = promises ?w ! target (held ?w ! i)"
    using assms by (intro fold_deliver_other) (simp_all add: runs_def)
  with assms(2) show ?thesis by (simp add: native_def nth_append)
qed

lemma native_settled:
  "promises w ! p \<noteq> Pending \<Longrightarrow> promises (snd (native c cbs rep w)) ! p = promises w ! p"
  by (simp add: native_def fold_deliver_settled)


lemma new_P_fields:
  "fst (new_P (\<lambda>p. native c [cb p] rep) w) = Inr (PromiseRef (length (promises w)))"
  "held (snd (new_P (\<lambda>p. native c [cb p] rep) w)) = held w @ [cb (length (promises w))]"
  "calls (snd (new_P (\<lambda>p. native c [cb p] rep) w)) = calls w @ [c]"
  "length (promises (snd (new_P (\<lambda>p. native c [cb p] rep) w))) = Suc (length (promises w))"
  by (simp_all add: new_P_native native_fields reject_def length_settle split: sum.splits)

lemma new_P_settled:
  assumes "p < length (promises w)" and "promises w ! p \<noteq> Pending"
  shows "promises (snd (new_P (\<lambda>p. native c [cb p] rep) w)) ! p = promises w ! p"
proof -
  let ?w = "w\<lparr>promises := promises w @ [Pending]\<rparr>"
  from assms have "promises ?w ! p \<noteq> Pending" by (simp add: nth_append)
  then have "promises (snd (native c [cb (length (promises w))] rep ?w)) ! p = promises ?w ! p"
    by (rule native_settled)
  with assms show ?thesis
    by (simp add: new_P_native reject_def settle_settled nth_append split: sum.splits)
qed

lemma well_formed_append:
  assumes "well_formed w" and "held w' = held w @ [cb]" and "target cb = length (promises w)"
    and "length (promises w') = Suc (length (promises w))"
  shows "well_formed w'"
proof -
  from assms(1) have old: "\<forall>x\<in>set (held w). target x < length (promises w)"
    and dist: "distinct (map target (held w))"
    by (simp_all add: well_formed_def list_all_iff)
  from old have "length (promises w) \<notin> target ` set (held w)" by auto
  with old dist assms(2-4) show ?thesis
    by (auto simp: well_formed_def list_all_iff)
qed

lemma new_P_other:
  assumes "well_formed w" and "i < length (held w)" and "\<not> runs i rep"
    and "target (cb (length (promises w))) = length (promises w)"
  shows "promises (snd (new_P (\<lambda>p. native c [cb p] rep) w)) ! target (held w ! i)
       = promises w ! target (held w ! i)"
proof -
  define p where "p = length (promises w)"
  define w0 where "w0 = w\<lparr>promises := promises w @ [Pending]\<rparr>"
  define w1 where "w1 = snd (native c [cb p] rep w0)"
  from assms(1,2) have t: "target (held w ! i) < p"
    by (simp add: well_formed_def list_all_length p_def)
  from assms(1) have "\<forall>x\<in>set (held w). target x \<noteq> p"
    by (auto simp: well_formed_def list_all_iff p_def)
  with assms(1,4) have d: "distinct (map target (held w0 @ [cb p]))"
    by (auto simp: well_formed_def w0_def p_def)
  from assms(2) have i: "i < length (held w0)" by (simp add: w0_def)
  have "promises w1 ! target (held w0 ! i) = promises w0 ! target (held w0 ! i)"
    unfolding w1_def using d i assms(3) by (rule native_other)
  with t have n: "promises w1 ! target (held w ! i) = promises w ! target (held w ! i)"
    by (simp add: w0_def nth_append p_def)
  have r: "snd (new_P (\<lambda>p. native c [cb p] rep) w) =
      (case outcome rep of
         Inl e \<Rightarrow> if e = JUndefined then w1 else w1\<lparr>promises := reject p e (promises w1)\<rparr>
       | Inr v \<Rightarrow> w1)"
    unfolding w1_def w0_def p_def by (simp add: new_P_native)
  show ?thesis
  proof (cases "outcome rep")
    case (Inl e)
    from t have "p \<noteq> target (held w ! i)" by simp
    then have "reject p e (promises w1) ! target (held w ! i) = promises w1 ! target (held w ! i)"
      unfolding reject_def by (rule settle_other)
    with Inl n r show ?thesis by simp
  next
    case (Inr v)
    with n r show ?thesis by simp
  qed
qed

lemma step_held:
  "i < length (held w) \<Longrightarrow> i < length (held (step ev w)) \<and> held (step ev w) ! i = held w ! i"
  by (cases ev)
    (simp_all add: method_clients native_fields KafkaConsumer_consume_def Producer_produce_call_def
      Producer_produce_def new_P_fields deliver_fields nth_append)

lemma step_length:
  "p < length (promises w) \<Longrightarrow> p < length (promises (step ev w))"
  by (cases ev)
    (simp_all add: method_clients native_fields KafkaConsumer_consume_def Producer_produce_call_def
      Producer_produce_def new_P_fields deliver_fields)

lemma step_settled:
  "p < length (promises w) \<Longrightarrow> promises w ! p \<noteq> Pending \<Longrightarrow>
   promises (step ev w) ! p = promises w ! p"
  by (cases ev)
    (simp_all add: method_clients native_settled KafkaConsumer_consume_def Producer_produce_call_def
      Producer_produce_def new_P_settled deliver_settled)

lemma step_well_formed: "well_formed w \<Longrightarrow> well_formed (step ev w)"
proof (cases ev)
  case (Consume rep)
  assume "well_formed w"
  then show ?thesis
    unfolding Consume step.simps KafkaConsumer_consume_def
    by (rule well_formed_append [where cb = "ConsumeCb (length (promises w))"])
      (simp_all add: new_P_fields)
next
  case (Produce args rep)
  assume "well_formed w"
  then show ?thesis
    unfolding Produce step.simps Producer_produce_call_def Producer_produce_def
    by (rule well_formed_append [where cb = "ProduceCb (length (promises w))"])
      (simp_all add: new_P_fields)
qed (simp_all add: well_formed_def method_clients native_fields deliver_fields)

lemma step_other:
  assumes "well_formed w" and "i < length (held w)" and "\<not> touches i ev"
  shows "promises (step ev w) ! target (held w ! i) = promises w ! target (held w ! i)"
proof -
  from assms(1) have dist: "distinct (map target (held w @ []))" by (simp add: well_formed_def)
  show ?thesis
  proof (cases ev)
    case (Consume rep)
    with assms show ?thesis by (simp add: KafkaConsumer_consume_def new_P_other)
  next
    case (Produce args rep)
    with assms show ?thesis by (simp add: Producer_produce_call_def Producer_produce_def new_P_other)
  next
    case (Completion j error val)
    with assms dist show ?thesis by (simp add: deliver_other)
  qed (use assms dist in \<open>simp_all add: method_clients native_other\<close>)
qed

lemma run_held:
  "i < length (held w) \<Longrightarrow> i < length (held (run evs w)) \<and> held (run evs w) ! i = held w ! i"
  unfolding run_def
proof (induction evs arbitrary: w)
  case Nil
  then show ?case by simp
next
  case (Cons ev evs)
  from step_held [OF Cons.prems, of ev] Cons.IH [of "step ev w"] show ?case by simp
qed

lemma run_settled:
  "p < length (promises w) \<Longrightarrow> promises w ! p \<noteq> Pending \<Longrightarrow>
   p < length (promises (run evs w)) \<and> promises (run evs w) ! p = promises w ! p"
  unfolding run_def
proof (induction evs arbitrary: w)
  case Nil
  then show ?case by simp
next
  case (Cons ev evs)
  from Cons.prems have "p < length (promises (step ev w))"
    and "promises (step ev w) ! p = promises w ! p"
    by (simp_all add: step_length step_settled)
  with Cons.prems Cons.IH [of "step ev w"] show ?case by simp
qed

lemma run_well_formed: "well_formed w \<Longrightarrow> well_formed (run evs w)"
  unfolding run_def by (induction evs arbitrary: w) (simp_all add: step_well_formed)

lemma run_other:
  assumes "well_formed w" and "i < length (held w)" and "list_all (\<lambda>ev. \<not> touches i ev) evs"
  shows "promises (run evs w) ! target (held w ! i) = promises w ! target (held w ! i)"
  using assms unfolding run_def
proof (induction evs arbitrary: w)
  case Nil
  then show ?case by simp
next
  case (Cons ev evs)
  from Cons.prems have s: "well_formed (step ev w)" "i < length (held (step ev w))"
    "held (step ev w) ! i = held w ! i"
    by (simp_all add: step_well_formed step_held)
  from Cons.prems have "promises (step ev w) ! target (held w ! i) = promises w ! target (held w ! i)"
    by (simp add: step_other)
  moreover from Cons.prems s Cons.IH [of "step ev w"]
  have "promises (fold step evs (step ev w)) ! target (held w ! i)
      = promises (step ev w) ! target (held w ! i)"
    by simp
  ultimately show ?case by simp
qed


lemma native_fresh:
  assumes "well_formed w" and "target cb = p" and "p < length (promises w)"
    and "\<forall>x\<in>set (held w). target x \<noteq> p" and "\<not> runs (length (held w)) rep"
  shows "promises (snd (native c [cb] rep w)) ! p = promises w ! p"
proof -
  let ?w = "w\<lparr>held := held w @ [cb], calls := calls w @ [c]\<rparr>"
  from assms(1,2,4) have "distinct (map target (held ?w))"
    by (auto simp: well_formed_def)
  moreover have "length (held w) < length (held ?w)" by simp
  moreover from assms(5) have "length (held w) \<notin> set (map fst (callbacks_run rep))"
    by (simp add: runs_def)
  ultimately have "promises (fold deliver (callbacks_run rep) ?w) ! target (held ?w ! length (held w))
      = promises ?w ! target (held ?w ! length (held w))"
    by (rule fold_deliver_other)
  with assms(2) show ?thesis by (simp add: native_def)
qed

lemma new_P_fresh:
  assumes "well_formed w" and "\<not> runs (length (held w)) rep"
    and "target (cb (length (promises w))) = length (promises w)"
  shows "promises (snd (new_P (\<lambda>p. native c [cb p] rep) w)) ! length (promises w)
       = (case outcome rep of
            Inl e \<Rightarrow> if e = JUndefined then Pending else Rejected e
          | Inr v \<Rightarrow> Pending)"
proof -
  define p where "p = length (promises w)"
  define w0 where "w0 = w\<lparr>promises := promises w @ [Pending]\<rparr>"
  define w1 where "w1 = snd (native c [cb p] rep w0)"
  from assms(1) have old: "\<forall>x\<in>set (held w0). target x \<noteq> p"
    by (auto simp: well_formed_def list_all_iff p_def w0_def)
  from assms(1) have "well_formed w0"
    by (auto simp: well_formed_def list_all_iff w0_def)
  moreover from assms(3) have "target (cb p) = p" by (simp add: p_def)
  moreover have "p < length (promises w0)" by (simp add: p_def w0_def)
  moreover from assms(2) have "\<not> runs (length (held w0)) rep" by (simp add: w0_def)
  ultimately have "promises (snd (native c [cb p] rep w0)) ! p = promises w0 ! p"
    using old by (intro native_fresh) simp_all
  then have n: "promises w1 ! p = Pending" by (simp add: w1_def w0_def p_def)
  have l: "p < length (promises w1)" by (simp add: w1_def native_fields w0_def p_def)
  have r: "snd (new_P (\<lambda>p. native c [cb p] rep) w) =
      (case outcome rep of
         Inl e \<Rightarrow> if e = JUndefined then w1 else w1\<lparr>promises := reject p e (promises w1)\<rparr>
       | Inr v \<Rightarrow> w1)"
    unfolding w1_def w0_def p_def by (simp add: new_P_native)
  show ?thesis
  proof (cases "outcome rep")
    case (Inl e)
    with n l r show ?thesis by (simp add: reject_def settle_def p_def [symmetric])
  next
    case (Inr v)
    with n r show ?thesis by (simp add: p_def [symmetric])
  qed
qed

lemma deliver_pending:
  assumes "i < length (held w)" and "target (held w ! i) < length (promises w)"
    and "promises w ! target (held w ! i) = Pending"
  shows "deliver (i, error, value) w =
     w\<lparr>promises := (promises w)[target (held w ! i) :=
          if truthy error then Rejected error else Fulfilled value]\<rparr>"
  using assms by (simp add: deliver_def invoke_pending)

lemma deliver_settled_same:
  assumes "i < length (held w)" and "promises w ! target (held w ! i) \<noteq> Pending"
  shows "deliver (i, error, value) w = w"
proof -
  from assms(2) have "invoke (held w ! i) error value (promises w) = promises w"
    by (cases "held w ! i") (simp_all add: resolve_def reject_def settle_def)
  with assms(1) show ?thesis by (simp add: deliver_def)
qed

lemma run_length: "p < length (promises w) \<Longrightarrow> p < length (promises (run evs w))"
  unfolding run_def by (induction evs arbitrary: w) (simp_all add: step_length)

lemma operation_pending_until_completed:
  assumes "well_formed w" and "\<not> runs (length (held w)) rep" and "outcome rep = Inr r"
    and "list_all (\<lambda>ev. \<not> touches (length (held w)) ev) evs"
    and "target (cb (length (promises w))) = length (promises w)"
    and w2_def: "w2 = run evs (snd (new_P (\<lambda>p. native c [cb p] rep) w))"
  shows "length (held w) < length (held w2)"
    and "target (held w2 ! length (held w)) = length (promises w)"
    and "length (promises w) < length (promises w2)"
    and "promises w2 ! length (promises w) = Pending"
proof -
  define w1 where "w1 = snd (new_P (\<lambda>p. native c [cb p] rep) w)"
  have h: "held w1 = held w @ [cb (length (promises w))]"
    and l: "length (promises w1) = Suc (length (promises w))"
    by (simp_all add: w1_def new_P_fields)
  from assms(1) h assms(5) l have wf1: "well_formed w1" by (rule well_formed_append)
  from h have i: "length (held w) < length (held w1)" by simp
  from h assms(5) have t: "target (held w1 ! length (held w)) = length (promises w)" by simp
  from assms(1,2,5) assms(3) have p: "promises w1 ! length (promises w) = Pending"
    by (simp add: w1_def new_P_fresh)
  from run_held [OF i, of evs] show "length (held w) < length (held w2)"
    by (simp add: w2_def w1_def)
  from run_held [OF i, of evs] t show "target (held w2 ! length (held w)) = length (promises w)"
    by (simp add: w2_def w1_def)
  from l show "length (promises w) < length (promises w2)"
    unfolding w2_def w1_def [symmetric] by (intro run_length) simp
  from run_other [OF wf1 i assms(4)] t p show "promises w2 ! length (promises w) = Pending"
    by (simp add: w2_def w1_def)
qed

lemma find_distinct:
  "distinct (map f xs) \<Longrightarrow> x \<in> set xs \<Longrightarrow> find (\<lambda>e. f e = f x) xs = Some x"
  by (induction xs) (auto simp: image_iff)

lemma find_absent: "c \<notin> set (map f xs) \<Longrightarrow> find (\<lambda>e. f e = c) xs = None"
  by (induction xs) auto

lemma new_client_well_formed: "well_formed new_client"
  by (simp add: well_formed_def new_client_def)

lemma reachable_well_formed: "well_formed (run evs new_client)"
  by (rule run_well_formed) (rule new_client_well_formed)

section \<open>The claims\<close>

text \<open>
  C1. \<^verbatim>\<open>produce(topic, payload)\<close> returns a promise. When the binding takes the
  message without throwing, the promise is pending, and it stays pending through whatever
  else happens to the client (other calls, completions of other operations) as long as the
  binding has not run this call's callback. When the binding then runs the callback, the
  promise is fulfilled with the offset if the error argument is not an error (falsy), and
  rejected with the error otherwise.
\<close>

theorem produce_settles_on_delivery_report:
  assumes "well_formed w" and "\<not> runs (length (held w)) rep" and "outcome rep = Inr r"
    and "list_all (\<lambda>ev. \<not> touches (length (held w)) ev) evs"
  shows "fst (Producer_produce topic payload rep w) = Inr (PromiseRef (length (promises w)))
    \<and> promises (run evs (snd (Producer_produce topic payload rep w))) ! length (promises w) = Pending
    \<and> promises (deliver (length (held w), error, offset)
          (run evs (snd (Producer_produce topic payload rep w)))) ! length (promises w)
        = (if truthy error then Rejected error else Fulfilled offset)"
proof -
  define w2 where "w2 = run evs (snd (new_P (\<lambda>p. native (NProduce topic payload) [ProduceCb p] rep) w))"
  have t: "target (ProduceCb (length (promises w))) = length (promises w)" by simp
  note life = operation_pending_until_completed [OF assms t w2_def]
  from life have "deliver (length (held w), error, offset) w2 =
      w2\<lparr>promises := (promises w2)[length (promises w) :=
            if truthy error then Rejected error else Fulfilled offset]\<rparr>"
    by (simp add: deliver_pending)
  with life show ?thesis
    by (simp add: Producer_produce_def new_P_fields w2_def [symmetric])
qed

text \<open>
  At a concrete run: a second message is produced and confirmed first; the report of offset
  42 then fulfils the first promise with 42, and a queue-full report would reject it with
  that error.
\<close>

theorem produce_settles_on_delivery_report_witness:
  "well_formed new_client \<and> \<not> runs (length (held new_client)) accepts
   \<and> outcome accepts = Inr JUndefined
   \<and> list_all (\<lambda>ev. \<not> touches (length (held new_client)) ev)
        [Produce [JStr ''orders'', JStr ''second''] accepts, Completion 1 JNull (JNum 41)]
   \<and> promises (deliver (0, JNull, JNum 42)
        (run [Produce [JStr ''orders'', JStr ''second''] accepts, Completion 1 JNull (JNum 41)]
          (snd (Producer_produce (JStr ''orders'') (JStr ''first'') accepts new_client)))) ! 0
      = Fulfilled (JNum 42)
   \<and> promises (deliver (0, JErr (-184) ''queue full'', JUndefined)
        (run [Produce [JStr ''orders'', JStr ''second''] accepts, Completion 1 JNull (JNum 41)]
          (snd (Producer_produce (JStr ''orders'') (JStr ''first'') accepts new_client)))) ! 0
      = Rejected (JErr (-184) ''queue full'')"
  using
    produce_settles_on_delivery_report [of new_client accepts JUndefined
      "[Produce [JStr ''orders'', JStr ''second''] accepts, Completion 1 JNull (JNum 41)]"
      "JStr ''orders''" "JStr ''first''" JNull "JNum 42"]
    produce_settles_on_delivery_report [of new_client accepts JUndefined
      "[Produce [JStr ''orders'', JStr ''second''] accepts, Completion 1 JNull (JNum 41)]"
      "JStr ''orders''" "JStr ''first''" "JErr (-184) ''queue full''" JUndefined]
  by (simp add: well_formed_def new_client_def accepts_def runs_def)

text \<open>
  C2. An operation whose promise is pending is settled by one completion of the binding,
  as fulfilled or as rejected, never left pending. A second completion of the same
  operation changes nothing in the client, and no later run of the client changes the
  outcome.
\<close>

theorem operation_fulfilled_exactly_once:
  assumes "i < length (held w)" and "target (held w ! i) < length (promises w)"
    and "promises w ! target (held w ! i) = Pending"
  shows "promises (deliver (i, error, value) w) ! target (held w ! i)
        = (if truthy error then Rejected error else Fulfilled value)
    \<and> deliver (i, error', value') (deliver (i, error, value) w) = deliver (i, error, value) w
    \<and> promises (run evs (deliver (i, error, value) w)) ! target (held w ! i)
        = promises (deliver (i, error, value) w) ! target (held w ! i)"
proof -
  define w1 where "w1 = deliver (i, error, value) w"
  from assms have p: "promises w1 ! target (held w ! i)
      = (if truthy error then Rejected error else Fulfilled value)"
    by (simp add: w1_def deliver_pending)
  then have s: "promises w1 ! target (held w1 ! i) \<noteq> Pending"
    by (simp add: w1_def deliver_fields)
  from assms(1) have "i < length (held w1)" by (simp add: w1_def deliver_fields)
  then have "deliver (i, error', value') w1 = w1" using s by (rule deliver_settled_same)
  moreover from assms(2) have "target (held w ! i) < length (promises w1)"
    by (simp add: w1_def deliver_fields)
  with s have "promises (run evs w1) ! target (held w ! i) = promises w1 ! target (held w ! i)"
    by (simp add: run_settled w1_def deliver_fields)
  ultimately show ?thesis using p by (simp add: w1_def)
qed

text \<open>
  At a concrete run: a consumed message fulfils the promise; a late error for the same
  operation and a later close leave it fulfilled.
\<close>

theorem operation_fulfilled_exactly_once_witness:
  "(0::nat) < length (held (snd (KafkaConsumer_consume accepts new_client)))
   \<and> target (held (snd (KafkaConsumer_consume accepts new_client)) ! 0)
       < length (promises (snd (KafkaConsumer_consume accepts new_client)))
   \<and> promises (snd (KafkaConsumer_consume accepts new_client))
       ! target (held (snd (KafkaConsumer_consume accepts new_client)) ! 0) = Pending
   \<and> promises (deliver (0, JNull, JObj 9) (snd (KafkaConsumer_consume accepts new_client))) ! 0
       = Fulfilled (JObj 9)
   \<and> deliver (0, JErr (-1) ''late'', JUndefined)
        (deliver (0, JNull, JObj 9) (snd (KafkaConsumer_consume accepts new_client)))
       = deliver (0, JNull, JObj 9) (snd (KafkaConsumer_consume accepts new_client))
   \<and> promises (run [Completion 0 (JErr (-1) ''late'') JUndefined, Close accepts]
        (deliver (0, JNull, JObj 9) (snd (KafkaConsumer_consume accepts new_client)))) ! 0
       = Fulfilled (JObj 9)"
  using operation_fulfilled_exactly_once [of 0 "snd (KafkaConsumer_consume accepts new_client)"
      JNull "JObj 9" "JErr (-1) ''late''" JUndefined
      "[Completion 0 (JErr (-1) ''late'') JUndefined, Close accepts]"]
  by (simp add: KafkaConsumer_consume_def new_P_native_quiet accepts_def new_client_def)

text \<open>
  C3, as the wrapper has it. \<^verbatim>\<open>consume()\<close> has no guard against a call that is
  still pending: every call returns a new promise, hands a new callback to the binding and
  calls the binding's \<^verbatim>\<open>consume\<close>. When the binding runs no callback during the
  call, the promises allocated before are left as they were, and the new promise is
  pending, unless the binding's call throws a value other than \<^verbatim>\<open>undefined\<close>: then
  it is rejected with that value. Whatever the binding does during the call, the promise
  of an earlier call whose callback the binding does not run during it is left as it was.
\<close>

theorem consume_has_no_single_flight_guard:
  "fst (KafkaConsumer_consume rep w) = Inr (PromiseRef (length (promises w)))
   \<and> calls (snd (KafkaConsumer_consume rep w)) = calls w @ [NConsume]
   \<and> held (snd (KafkaConsumer_consume rep w)) = held w @ [ConsumeCb (length (promises w))]
   \<and> (callbacks_run rep = [] \<longrightarrow>
        promises (snd (KafkaConsumer_consume rep w)) =
          promises w @
            [case outcome rep of
               Inl e \<Rightarrow> if e = JUndefined then Pending else Rejected e
             | Inr v \<Rightarrow> Pending])
   \<and> (well_formed w \<and> i < length (held w) \<and> \<not> runs i rep \<longrightarrow>
        promises (snd (KafkaConsumer_consume rep w)) ! target (held w ! i)
          = promises w ! target (held w ! i))"
  by (simp add: KafkaConsumer_consume_def new_P_fields new_P_native_quiet new_P_other)

text \<open>
  At a concrete client with one pending \<^verbatim>\<open>consume()\<close>: a second call that the
  binding takes, and a second call at which the binding throws an error.
\<close>

theorem consume_has_no_single_flight_guard_witness:
  "callbacks_run accepts = []
   \<and> well_formed \<lparr>promises = [Pending], held = [ConsumeCb 0], calls = [NConsume]\<rparr>
   \<and> (0::nat) < length (held \<lparr>promises = [Pending], held = [ConsumeCb 0], calls = [NConsume]\<rparr>)
   \<and> \<not> runs 0 accepts
   \<and> KafkaConsumer_consume accepts \<lparr>promises = [Pending], held = [ConsumeCb 0], calls = [NConsume]\<rparr>
     = (Inr (PromiseRef 1),
        \<lparr>promises = [Pending, Pending], held = [ConsumeCb 0, ConsumeCb 1], calls = [NConsume, NConsume]\<rparr>)
   \<and> callbacks_run \<lparr>callbacks_run = [], outcome = Inl (JErr (-172) ''wrong state'')\<rparr> = []
   \<and> \<not> runs 0 \<lparr>callbacks_run = [], outcome = Inl (JErr (-172) ''wrong state'')\<rparr>
   \<and> KafkaConsumer_consume \<lparr>callbacks_run = [], outcome = Inl (JErr (-172) ''wrong state'')\<rparr>
        \<lparr>promises = [Pending], held = [ConsumeCb 0], calls = [NConsume]\<rparr>
     = (Inr (PromiseRef 1),
        \<lparr>promises = [Pending, Rejected (JErr (-172) ''wrong state'')],
         held = [ConsumeCb 0, ConsumeCb 1], calls = [NConsume, NConsume]\<rparr>)"
  using
    consume_has_no_single_flight_guard [of accepts
      "\<lparr>promises = [Pending], held = [ConsumeCb 0], calls = [NConsume]\<rparr>" 0]
    consume_has_no_single_flight_guard [of
      "\<lparr>callbacks_run = [], outcome = Inl (JErr (-172) ''wrong state'')\<rparr>"
      "\<lparr>promises = [Pending], held = [ConsumeCb 0], calls = [NConsume]\<rparr>" 0]
  by (simp add: accepts_def prod_eq_iff well_formed_def runs_def)

text \<open>
  C3 as stated fails: with a binding that takes both calls, the second
  \<^verbatim>\<open>consume()\<close> on a new client returns a promise that is pending, not rejected, and
  the binding has been called twice.
\<close>

theorem consume_twice_counterexample:
  "KafkaConsumer_consume accepts (snd (KafkaConsumer_consume accepts new_client)) =
     (Inr (PromiseRef 1),
      \<lparr>promises = [Pending, Pending], held = [ConsumeCb 0, ConsumeCb 1], calls = [NConsume, NConsume]\<rparr>)"
  by (simp add: KafkaConsumer_consume_def new_P_fields new_P_native_quiet accepts_def new_client_def
      prod_eq_iff)




text \<open>
  C5, as the wrapper has it. \<^verbatim>\<open>subscribe(topics)\<close> validates nothing: whatever
  \<^verbatim>\<open>topics\<close> is, it is handed to the binding's \<^verbatim>\<open>subscribe\<close> as it is, and the
  call returns what the binding returns or throws what the binding throws.
\<close>

theorem subscribe_forwards_unvalidated:
  "calls (snd (KafkaConsumer_subscribe topics rep w)) = calls w @ [NSubscribe topics]
   \<and> held (snd (KafkaConsumer_subscribe topics rep w)) = held w
   \<and> fst (KafkaConsumer_subscribe topics rep w) =
       (case outcome rep of Inl e \<Rightarrow> Inl e | Inr v \<Rightarrow> Inr (Plain v))"
  by (simp add: method_clients method_results native_fields)

text \<open>
  C5 as stated fails: an empty topic list and a list with a duplicate both reach the
  binding, and with a binding that takes them the call returns normally.
\<close>

theorem subscribe_empty_counterexample:
  "KafkaConsumer_subscribe (JArr []) accepts new_client =
     (Inr (Plain JUndefined), \<lparr>promises = [], held = [], calls = [NSubscribe (JArr [])]\<rparr>)
   \<and> KafkaConsumer_subscribe (JArr [JStr ''orders'', JStr ''orders'']) accepts new_client =
     (Inr (Plain JUndefined),
      \<lparr>promises = [], held = [], calls = [NSubscribe (JArr [JStr ''orders'', JStr ''orders''])]\<rparr>)"
  by (simp add: KafkaConsumer_subscribe_def native_def accepts_def new_client_def)

text \<open>
  C6. \<^verbatim>\<open>commit(commitValues)\<close> is fire and forget: the call hands the commit request
  to the binding at once, allocates no promise and hands the binding no callback, and
  what it returns is never a promise, so there is nothing for the caller to wait on.
\<close>

theorem commit_fire_and_forget:
  "calls (snd (KafkaConsumer_commit commitValues rep w)) = calls w @ [NCommit commitValues]
   \<and> held (snd (KafkaConsumer_commit commitValues rep w)) = held w
   \<and> length (promises (snd (KafkaConsumer_commit commitValues rep w))) = length (promises w)
   \<and> fst (KafkaConsumer_commit commitValues rep w) \<noteq> Inr (PromiseRef p)"
  by (simp add: method_clients method_results native_fields split: sum.splits)

text \<open>
  C7, as the wrapper has it. The consumer's \<^verbatim>\<open>close()\<close> calls the binding's
  \<^verbatim>\<open>close\<close> and returns \<^verbatim>\<open>undefined\<close>. It rejects no promise itself: the
  client after the call is the client before it with the call recorded and the callbacks
  run that the binding ran during the call, so with none run every promise is as it was.
\<close>

theorem close_rejects_nothing_itself:
  "fst (KafkaConsumer_close rep w) =
     (case outcome rep of Inl e \<Rightarrow> Inl e | Inr v \<Rightarrow> Inr (Plain JUndefined))
   \<and> snd (KafkaConsumer_close rep w) =
     fold deliver (callbacks_run rep) (w\<lparr>calls := calls w @ [NClose]\<rparr>)
   \<and> (callbacks_run rep = [] \<longrightarrow> promises (snd (KafkaConsumer_close rep w)) = promises w)"
  by (simp add: method_clients method_results native_def)

text \<open>
  At a concrete client with one pending and one fulfilled promise.
\<close>

theorem close_rejects_nothing_itself_witness:
  "callbacks_run accepts = []
   \<and> promises (snd (KafkaConsumer_close accepts
        \<lparr>promises = [Pending, Fulfilled (JObj 7)], held = [ConsumeCb 0, ConsumeCb 1],
         calls = [NConsume, NConsume]\<rparr>))
      = [Pending, Fulfilled (JObj 7)]"
  using close_rejects_nothing_itself [of accepts
      "\<lparr>promises = [Pending, Fulfilled (JObj 7)], held = [ConsumeCb 0, ConsumeCb 1],
        calls = [NConsume, NConsume]\<rparr>"]
  by (simp add: accepts_def)

text \<open>
  C7 as stated fails: after \<^verbatim>\<open>consume()\<close> and then \<^verbatim>\<open>close()\<close>, with a binding
  that runs no callback, \<^verbatim>\<open>close()\<close> has returned and the promise of
  \<^verbatim>\<open>consume()\<close> is still pending.
\<close>

theorem close_leaves_consume_pending_counterexample:
  "fst (KafkaConsumer_close accepts (snd (KafkaConsumer_consume accepts new_client))) = Inr (Plain JUndefined)
   \<and> promises (snd (KafkaConsumer_close accepts (snd (KafkaConsumer_consume accepts new_client)))) = [Pending]"
  by (simp add: method_clients method_results native_def KafkaConsumer_consume_def new_P_native_quiet
      accepts_def new_client_def)

text \<open>
  C8. In a table with unique codes, the lookup of code 0 returns the name and message of
  the entry with code 0, the success entry, and the lookup of a code the table does not have
  returns the fallback. The lookup is a function of the table, the fallback and the code
  alone, so it has no effect and returns the same pair every time.
\<close>

theorem lookup_success_and_fallback:
  assumes "distinct (map entry_code table)" and "success \<in> set table" and "entry_code success = 0"
  shows "lookup table fallback 0 = (entry_name success, entry_message success)
    \<and> (c \<notin> set (map entry_code table) \<longrightarrow> lookup table fallback c = fallback)"
proof -
  from find_distinct [of entry_code table success] assms
  have "find (\<lambda>e. entry_code e = 0) table = Some success" by simp
  then show ?thesis by (simp add: lookup_def find_absent)
qed

text \<open>
  At a concrete table of two entries.
\<close>

theorem lookup_success_and_fallback_witness:
  "distinct (map entry_code
      [\<lparr>entry_code = - 184, entry_name = ''ERR__QUEUE_FULL'', entry_message = ''Local: Queue full''\<rparr>,
       \<lparr>entry_code = 0, entry_name = ''ERR_NO_ERROR'', entry_message = ''Success''\<rparr>])
   \<and> \<lparr>entry_code = 0, entry_name = ''ERR_NO_ERROR'', entry_message = ''Success''\<rparr> \<in> set
      [\<lparr>entry_code = - 184, entry_name = ''ERR__QUEUE_FULL'', entry_message = ''Local: Queue full''\<rparr>,
       \<lparr>entry_code = 0, entry_name = ''ERR_NO_ERROR'', entry_message = ''Success''\<rparr>]
   \<and> lookup
      [\<lparr>entry_code = - 184, entry_name = ''ERR__QUEUE_FULL'', entry_message = ''Local: Queue full''\<rparr>,
       \<lparr>entry_code = 0, entry_name = ''ERR_NO_ERROR'', entry_message = ''Success''\<rparr>]
      (''ERR_UNKNOWN'', ''Unknown error'') 0 = (''ERR_NO_ERROR'', ''Success'')
   \<and> lookup
      [\<lparr>entry_code = - 184, entry_name = ''ERR__QUEUE_FULL'', entry_message = ''Local: Queue full''\<rparr>,
       \<lparr>entry_code = 0, entry_name = ''ERR_NO_ERROR'', entry_message = ''Success''\<rparr>]
      (''ERR_UNKNOWN'', ''Unknown error'') 7 = (''ERR_UNKNOWN'', ''Unknown error'')"
  using lookup_success_and_fallback [of
      "[\<lparr>entry_code = - 184, entry_name = ''ERR__QUEUE_FULL'', entry_message = ''Local: Queue full''\<rparr>,
        \<lparr>entry_code = 0, entry_name = ''ERR_NO_ERROR'', entry_message = ''Success''\<rparr>]"
      "\<lparr>entry_code = 0, entry_name = ''ERR_NO_ERROR'', entry_message = ''Success''\<rparr>"
      "(''ERR_UNKNOWN'', ''Unknown error'')" 7]
  by simp

text \<open>
  C9, as the wrapper has it. \<^verbatim>\<open>produce\<close> has the two parameters
  \<^verbatim>\<open>topic\<close> and \<^verbatim>\<open>payload\<close>: a call with further arguments is the call with the
  first two, and the binding's \<^verbatim>\<open>produce\<close> is handed those two (and the callback).
\<close>

theorem produce_hands_over_topic_and_payload_only:
  "Producer_produce_call (topic # payload # rest) rep w = Producer_produce_call [topic, payload] rep w
   \<and> calls (snd (Producer_produce_call args rep w)) = calls w @ [NProduce (arg 0 args) (arg 1 args)]"
  by (simp add: Producer_produce_call_def Producer_produce_def arg_def new_P_fields)

text \<open>
  C9 as stated fails: a key given as third argument is not among the arguments the
  binding is handed.
\<close>

theorem produce_key_counterexample:
  "calls (snd (Producer_produce_call [JStr ''orders'', JStr ''payload'', JStr ''key-1''] accepts new_client))
     = [NProduce (JStr ''orders'') (JStr ''payload'')]
   \<and> JStr ''key-1'' \<notin> set (concat (map call_args
        (calls (snd (Producer_produce_call [JStr ''orders'', JStr ''payload'', JStr ''key-1'']
           accepts new_client)))))"
  by (simp add: Producer_produce_call_def Producer_produce_def arg_def new_P_fields new_client_def)

text \<open>
  C10. \<^verbatim>\<open>commit\<close> and the consumer's \<^verbatim>\<open>close\<close> return \<^verbatim>\<open>undefined\<close>
  whatever value the binding's call returned, and fail only by the exception the binding
  throws; the producer's \<^verbatim>\<open>close\<close> returns the binding's own result.
\<close>

theorem commit_close_discard_result:
  "fst (KafkaConsumer_commit commitValues rep w) =
     (case outcome rep of Inl e \<Rightarrow> Inl e | Inr v \<Rightarrow> Inr (Plain JUndefined))
   \<and> fst (KafkaConsumer_close rep w) =
     (case outcome rep of Inl e \<Rightarrow> Inl e | Inr v \<Rightarrow> Inr (Plain JUndefined))
   \<and> fst (Producer_close rep w) =
     (case outcome rep of Inl e \<Rightarrow> Inl e | Inr v \<Rightarrow> Inr (Plain v))"
  by (simp add: method_results)

end
